theory Spec2Isabelle
  imports Complex_Main "HOL-Library.Multiset" "HOL-Library.Sublist"
begin

section \<open>The Pareto filter of 0093_pareto.ipynb\<close>

subsection \<open>Score components and their comparisons\<close>

text \<open>
  The function \<open>identify_pareto\<close> of the notebook takes a two-dimensional NumPy array
  \<open>scores\<close> of shape \<open>(N, M)\<close>. The only operations it applies to the components are
  the element-wise comparisons \<open>>=\<close> and \<open>>\<close>, which are exact on machine numbers; no
  arithmetic is done on them. A component is therefore modelled by its value: a finite
  number (an integer or a float of the array, read as a real), one of the two infinities,
  or NaN. The comparisons follow IEEE 754 as NumPy implements them: every comparison
  with NaN is false, and the infinities sit below and above every finite number.
\<close>

datatype score = Fin real | PInf | NInf | NaN

fun ge_score :: "score \<Rightarrow> score \<Rightarrow> bool" where
  "ge_score NaN y = False"
| "ge_score x NaN = False"
| "ge_score PInf y = True"
| "ge_score x NInf = True"
| "ge_score (Fin x) (Fin y) = (x \<ge> y)"
| "ge_score (Fin x) PInf = False"
| "ge_score NInf y = False"

fun gt_score :: "score \<Rightarrow> score \<Rightarrow> bool" where
  "gt_score NaN y = False"
| "gt_score x NaN = False"
| "gt_score x PInf = False"
| "gt_score NInf y = False"
| "gt_score PInf y = True"
| "gt_score (Fin x) NInf = True"
| "gt_score (Fin x) (Fin y) = (x > y)"

text \<open>
  An array of shape \<open>(N, M)\<close> is the list of its \<open>N\<close> rows, each a list of \<open>M\<close>
  components. That all rows have the same length is part of being a two-dimensional
  array; it is the predicate \<open>shape2\<close> below. The function has no \<open>raise\<close>, and on
  such an array each operation it performs is defined (\<open>shape[0]\<close>, \<open>arange\<close>, \<open>ones\<close>,
  reading rows \<open>i, j < N\<close>, comparing two rows of the same length, \<open>all\<close>, \<open>any\<close>,
  writing \<open>pareto_front[i]\<close> for \<open>i < N\<close>, indexing with a mask of length \<open>N\<close>), so
  the embedding is a total function to the list of returned indices. A list of rows of
  different lengths is not an array of the source: the row comparisons below are only
  meant for rows of equal length, and every statement that depends on the shape
  assumes \<open>shape2\<close>.
\<close>

type_synonym ndarray2 = "score list list"

definition shape2 :: "ndarray2 \<Rightarrow> nat \<Rightarrow> bool" where
  "shape2 scores M = list_all (\<lambda>row. length row = M) scores"

definition is_finite :: "score \<Rightarrow> bool" where
  "is_finite x = (case x of Fin r \<Rightarrow> True | _ \<Rightarrow> False)"

definition all_finite :: "ndarray2 \<Rightarrow> bool" where
  "all_finite scores = list_all (list_all is_finite) scores"

text \<open>
  The spec's valid input: a non-ragged \<open>N\<close>-by-\<open>M\<close> array with \<open>M \<ge> 1\<close> whose components
  are all finite.
\<close>

definition valid_input :: "ndarray2 \<Rightarrow> nat \<Rightarrow> bool" where
  "valid_input scores M = (1 \<le> M \<and> shape2 scores M \<and> all_finite scores)"

subsection \<open>The function\<close>

text \<open>
  \<open>scores[j] >= scores[i]\<close> and \<open>scores[j] > scores[i]\<close> compare two rows
  component by component and give a Boolean array; Python's \<open>all\<close> and \<open>any\<close> reduce it.
\<close>

definition row_ge :: "score list \<Rightarrow> score list \<Rightarrow> bool list" where
  "row_ge a b = map2 ge_score a b"

definition row_gt :: "score list \<Rightarrow> score list \<Rightarrow> bool list" where
  "row_gt a b = map2 gt_score a b"

definition all_py :: "bool list \<Rightarrow> bool" where
  "all_py bs = list_all (\<lambda>b. b) bs"

definition any_py :: "bool list \<Rightarrow> bool" where
  "any_py bs = list_ex (\<lambda>b. b) bs"

text \<open>
  The condition of the \<open>if\<close> in the inner loop:
  \<open>all(scores[j] >= scores[i]) and any(scores[j] > scores[i])\<close>.
\<close>

definition dominated_test :: "ndarray2 \<Rightarrow> nat \<Rightarrow> nat \<Rightarrow> bool" where
  "dominated_test scores j i =
     (all_py (row_ge (scores ! j) (scores ! i)) \<and> any_py (row_gt (scores ! j) (scores ! i)))"

text \<open>
  The inner loop \<open>for j in range(population_size)\<close> for a fixed \<open>i\<close>, over the values of
  \<open>j\<close> still to come. When the test succeeds, \<open>pareto_front[i] = 0\<close> is executed and
  \<open>break\<close> leaves the loop.
\<close>

fun inner_loop :: "ndarray2 \<Rightarrow> nat \<Rightarrow> nat list \<Rightarrow> bool list \<Rightarrow> bool list" where
  "inner_loop scores i [] pareto_front = pareto_front"
| "inner_loop scores i (j # js) pareto_front =
     (if dominated_test scores j i then pareto_front[i := False]
      else inner_loop scores i js pareto_front)"

text \<open>The outer loop \<open>for i in range(population_size)\<close>, over the values of \<open>i\<close> still to come.\<close>

fun outer_loop :: "ndarray2 \<Rightarrow> nat \<Rightarrow> nat list \<Rightarrow> bool list \<Rightarrow> bool list" where
  "outer_loop scores population_size [] pareto_front = pareto_front"
| "outer_loop scores population_size (i # rest) pareto_front =
     outer_loop scores population_size rest
       (inner_loop scores i [0..<population_size] pareto_front)"

text \<open>Indexing with a Boolean mask, \<open>population_ids[pareto_front]\<close>.\<close>

definition mask_select :: "'a list \<Rightarrow> bool list \<Rightarrow> 'a list" where
  "mask_select xs flags = map fst (filter snd (zip xs flags))"

definition identify_pareto :: "ndarray2 \<Rightarrow> nat list" where
  "identify_pareto scores =
     (let population_size = length scores;
          population_ids = [0..<population_size];
          pareto_front = replicate population_size True;
          pareto_front = outer_loop scores population_size [0..<population_size] pareto_front
      in mask_select population_ids pareto_front)"

text \<open>The dummy data of the notebook, \<open>scores\<close>.\<close>

definition scores_example :: ndarray2 where
  "scores_example =
     [[Fin 97, Fin 23], [Fin 55, Fin 77], [Fin 34, Fin 76], [Fin 80, Fin 60], [Fin 99, Fin 4],
      [Fin 81, Fin 5], [Fin 5, Fin 81], [Fin 30, Fin 79], [Fin 15, Fin 80], [Fin 70, Fin 65],
      [Fin 90, Fin 40], [Fin 40, Fin 30], [Fin 30, Fin 40], [Fin 20, Fin 60], [Fin 60, Fin 50],
      [Fin 20, Fin 20], [Fin 30, Fin 1], [Fin 60, Fin 40], [Fin 70, Fin 25], [Fin 44, Fin 62],
      [Fin 55, Fin 55], [Fin 55, Fin 10], [Fin 15, Fin 45], [Fin 83, Fin 22], [Fin 76, Fin 46],
      [Fin 56, Fin 32], [Fin 45, Fin 55], [Fin 10, Fin 70], [Fin 10, Fin 30], [Fin 79, Fin 50]]"

text \<open>
  Indexing with an array of integers, \<open>scores[idx]\<close>: the rows at the given positions, in
  the given order. The notebook reads the selected score vectors with it
  (\<open>scores[pareto]\<close>); the same operation reorders a population.
\<close>

definition take_rows :: "ndarray2 \<Rightarrow> nat list \<Rightarrow> ndarray2" where
  "take_rows scores idx = map (\<lambda>k. scores ! k) idx"

subsection \<open>The notions of the specification\<close>

text \<open>The number a finite component stands for.\<close>

fun value_of :: "score \<Rightarrow> real" where
  "value_of (Fin r) = r"
| "value_of x = 0"

text \<open>
  The dominance relation of the data model, over two score vectors of equal length:
  \<open>A\<close> dominates \<open>B\<close> if and only if \<open>A[k] \<ge> B[k]\<close> for every objective index \<open>k\<close>, and
  \<open>A[k] > B[k]\<close> for at least one objective index \<open>k\<close>.
\<close>

definition dominates :: "score list \<Rightarrow> score list \<Rightarrow> bool" where
  "dominates A B =
     ((\<forall>k\<in>{0..<length A}. value_of (A ! k) \<ge> value_of (B ! k)) \<and>
      (\<exists>k\<in>{0..<length A}. value_of (A ! k) > value_of (B ! k)))"

text \<open>Candidate \<open>k\<close> is not dominated by any other candidate of the population.\<close>

definition non_dominated :: "ndarray2 \<Rightarrow> nat \<Rightarrow> bool" where
  "non_dominated scores k =
     (\<not> (\<exists>j\<in>{0..<length scores}. j \<noteq> k \<and> dominates (scores ! j) (scores ! k)))"

text \<open>Candidate \<open>k\<close> achieves the maximum value of objective \<open>i\<close> over the population.\<close>

definition attains_max :: "ndarray2 \<Rightarrow> nat \<Rightarrow> nat \<Rightarrow> bool" where
  "attains_max scores i k =
     (\<forall>j\<in>{0..<length scores}. value_of (scores ! j ! i) \<le> value_of (scores ! k ! i))"

text \<open>Candidate \<open>k\<close> is strictly better on objective \<open>i\<close> than every other candidate.\<close>

definition strict_max :: "ndarray2 \<Rightarrow> nat \<Rightarrow> nat \<Rightarrow> bool" where
  "strict_max scores i k =
     (\<forall>j\<in>{0..<length scores}. j \<noteq> k \<longrightarrow> value_of (scores ! j ! i) < value_of (scores ! k ! i))"

text \<open>
  Some candidate that achieves the maximum value of objective \<open>i\<close> dominates
  candidate \<open>k\<close>.
\<close>

definition dominated_by_maximiser :: "ndarray2 \<Rightarrow> nat \<Rightarrow> nat \<Rightarrow> bool" where
  "dominated_by_maximiser scores i k =
     (\<exists>j\<in>{0..<length scores}. attains_max scores i j \<and> dominates (scores ! j) (scores ! k))"

text \<open>
  The naive variant the design notes allow in place of the early exit: for each candidate
  \<open>i\<close> the dominance test is evaluated against every candidate \<open>j\<close>, the outcomes are
  OR-reduced, and \<open>i\<close> is retained when the reduction is false.
\<close>

definition or_reduce :: "bool list \<Rightarrow> bool" where
  "or_reduce bs = foldl (\<or>) False bs"

definition identify_pareto_naive :: "ndarray2 \<Rightarrow> nat list" where
  "identify_pareto_naive scores =
     (let population_size = length scores;
          population_ids = [0..<population_size];
          pareto_front =
            map (\<lambda>i. \<not> or_reduce (map (\<lambda>j. dominated_test scores j i) [0..<population_size]))
              [0..<population_size]
      in mask_select population_ids pareto_front)"

text \<open>The index list \<open>p\<close> is a permutation of \<open>0..n-1\<close>.\<close>

definition is_permutation :: "nat list \<Rightarrow> nat \<Rightarrow> bool" where
  "is_permutation p n = (mset p = mset [0..<n])"

text \<open>Some candidate of the population passes the test of the inner loop against \<open>i\<close>.\<close>

definition is_dominated :: "ndarray2 \<Rightarrow> nat \<Rightarrow> bool" where
  "is_dominated scores i = list_ex (\<lambda>j. dominated_test scores j i) [0..<length scores]"

text \<open>The sum of the components of a finite score vector.\<close>

definition row_total :: "score list \<Rightarrow> real" where
  "row_total row = sum_list (map value_of row)"

section \<open>What the loops compute\<close>

lemma inner_loop_eq:
  "inner_loop scores i js pf =
     (if list_ex (\<lambda>j. dominated_test scores j i) js then pf[i := False] else pf)"
  by (induction js) auto

lemma outer_loop_length: "length (outer_loop scores n rest pf) = length pf"
  by (induction rest arbitrary: pf) (auto simp: inner_loop_eq)

lemma outer_loop_nth:
  "k < length pf \<Longrightarrow>
   outer_loop scores n rest pf ! k =
     (pf ! k \<and> \<not> (k \<in> set rest \<and> list_ex (\<lambda>j. dominated_test scores j k) [0..<n]))"
proof (induction rest arbitrary: pf)
  case Nil
  then show ?case by simp
next
  case (Cons i rest)
  let ?pf = "inner_loop scores i [0..<n] pf"
  have len: "k < length ?pf" using Cons.prems by (simp add: inner_loop_eq)
  have step: "?pf ! k = (pf ! k \<and> \<not> (k = i \<and> list_ex (\<lambda>j. dominated_test scores j k) [0..<n]))"
    using Cons.prems by (cases "k = i") (simp_all add: inner_loop_eq)
  show ?case
    using Cons.IH [OF len] step by auto
qed

lemma mask_select_upt:
  "length flags = n \<Longrightarrow> mask_select [0..<n] flags = filter (\<lambda>i. flags ! i) [0..<n]"
proof -
  assume n: "length flags = n"
  have "zip [0..<n] flags = zip [0..<n] (map (\<lambda>i. flags ! i) [0..<n])"
    using n map_nth [of flags] by simp
  also have "\<dots> = map (\<lambda>i. (i, flags ! i)) [0..<n]"
    by (simp add: zip_map2 zip_same_conv_map)
  finally show ?thesis
    by (simp add: mask_select_def filter_map comp_def)
qed

lemma identify_pareto_filter:
  "identify_pareto scores = filter (\<lambda>i. \<not> is_dominated scores i) [0..<length scores]"
proof -
  let ?n = "length scores"
  let ?pf = "outer_loop scores ?n [0..<?n] (replicate ?n True)"
  have len: "length ?pf = ?n" by (simp add: outer_loop_length)
  have "filter (\<lambda>i. ?pf ! i) [0..<?n] = filter (\<lambda>i. \<not> is_dominated scores i) [0..<?n]"
    by (rule filter_cong) (auto simp: outer_loop_nth is_dominated_def)
  then show ?thesis
    using mask_select_upt [OF len] by (simp add: identify_pareto_def Let_def)
qed

lemma or_reduce_eq: "or_reduce bs = list_ex (\<lambda>b. b) bs"
proof -
  have "foldl (\<or>) a bs = (a \<or> list_ex (\<lambda>b. b) bs)" for a
    by (induction bs arbitrary: a) auto
  then show ?thesis by (simp add: or_reduce_def)
qed

lemma identify_pareto_naive_filter:
  "identify_pareto_naive scores = filter (\<lambda>i. \<not> is_dominated scores i) [0..<length scores]"
proof -
  let ?n = "length scores"
  let ?pf = "map (\<lambda>i. \<not> or_reduce (map (\<lambda>j. dominated_test scores j i) [0..<?n])) [0..<?n]"
  have len: "length ?pf = ?n" by simp
  have "filter (\<lambda>i. ?pf ! i) [0..<?n] = filter (\<lambda>i. \<not> is_dominated scores i) [0..<?n]"
    by (rule filter_cong) (auto simp: or_reduce_eq is_dominated_def list_ex_iff)
  then show ?thesis
    using mask_select_upt [OF len] by (simp add: identify_pareto_naive_def Let_def)
qed

section \<open>The test of the loop and the dominance relation\<close>

lemma all_py_row_ge:
  "length a = length b \<Longrightarrow> all_py (row_ge a b) = (\<forall>k<length a. ge_score (a ! k) (b ! k))"
  by (simp add: all_py_def row_ge_def list_all_length)

lemma any_py_row_gt:
  "length a = length b \<Longrightarrow> any_py (row_gt a b) = (\<exists>k<length a. gt_score (a ! k) (b ! k))"
  by (auto simp: any_py_def row_gt_def list_ex_length)

lemma ge_score_finite:
  "is_finite x \<Longrightarrow> is_finite y \<Longrightarrow> ge_score x y = (value_of x \<ge> value_of y)"
  by (cases x; cases y) (simp_all add: is_finite_def)

lemma gt_score_finite:
  "is_finite x \<Longrightarrow> is_finite y \<Longrightarrow> gt_score x y = (value_of x > value_of y)"
  by (cases x; cases y) (simp_all add: is_finite_def)

lemma ge_score_NaN: "ge_score x NaN = False" "ge_score NaN x = False"
  by (cases x; simp)+

lemma valid_row:
  assumes "valid_input scores M" "i < length scores"
  shows "length (scores ! i) = M" and "\<forall>k<M. is_finite (scores ! i ! k)"
  using assms by (auto simp: valid_input_def shape2_def all_finite_def list_all_length)

lemma dominated_test_valid:
  assumes "valid_input scores M" "i < length scores" "j < length scores"
  shows "dominated_test scores j i = dominates (scores ! j) (scores ! i)"
proof -
  have li: "length (scores ! i) = M" and lj: "length (scores ! j) = M"
    using assms valid_row(1) by auto
  have fin: "\<forall>k<M. is_finite (scores ! i ! k) \<and> is_finite (scores ! j ! k)"
    using assms valid_row(2) by auto
  have "all_py (row_ge (scores ! j) (scores ! i)) =
          (\<forall>k\<in>{0..<M}. value_of (scores ! j ! k) \<ge> value_of (scores ! i ! k))"
    using fin by (auto simp: all_py_row_ge li lj ge_score_finite)
  moreover have "any_py (row_gt (scores ! j) (scores ! i)) =
          (\<exists>k\<in>{0..<M}. value_of (scores ! j ! k) > value_of (scores ! i ! k))"
    using fin by (auto simp: any_py_row_gt li lj gt_score_finite)
  ultimately show ?thesis
    by (simp add: dominated_test_def dominates_def lj)
qed

lemma dominates_irrefl: "\<not> dominates v v"
  by (simp add: dominates_def)

lemma is_dominated_iff:
  "is_dominated scores i = (\<exists>j<length scores. dominated_test scores j i)"
  by (auto simp: is_dominated_def list_ex_iff)

lemma is_dominated_valid:
  assumes "valid_input scores M" "k < length scores"
  shows "is_dominated scores k = (\<exists>j<length scores. dominates (scores ! j) (scores ! k))"
  using assms by (auto simp: is_dominated_iff dominated_test_valid)

lemma non_dominated_valid:
  assumes "valid_input scores M" "k < length scores"
  shows "non_dominated scores k = (\<not> is_dominated scores k)"
proof -
  have "(\<exists>j<length scores. dominates (scores ! j) (scores ! k)) =
        (\<exists>j<length scores. j \<noteq> k \<and> dominates (scores ! j) (scores ! k))"
    using dominates_irrefl by blast
  then show ?thesis
    using assms by (auto simp: is_dominated_valid non_dominated_def)
qed

lemma dominates_total:
  assumes "length a = length b" "dominates a b"
  shows "row_total b < row_total a"
proof -
  have "(\<Sum>k<length b. value_of (b ! k)) < (\<Sum>k<length b. value_of (a ! k))"
    using assms by (intro sum_strict_mono_ex1) (auto simp: dominates_def)
  then show ?thesis
    using assms(1) by (simp add: row_total_def sum_list_sum_nth atLeast0LessThan)
qed

lemma finite_argmax:
  fixes f :: "nat \<Rightarrow> real"
  assumes "finite S" "S \<noteq> {}"
  shows "\<exists>x\<in>S. \<forall>y\<in>S. f y \<le> f x"
proof -
  have "Max (f ` S) \<in> f ` S" using assms by (intro Max_in) auto
  then obtain x where x: "x \<in> S" "f x = Max (f ` S)" by auto
  have "\<forall>y\<in>S. f y \<le> f x" using assms x by simp
  with x show ?thesis by blast
qed

lemma in_identify_pareto_iff:
  "k \<in> set (identify_pareto scores) \<longleftrightarrow> k < length scores \<and> \<not> is_dominated scores k"
  by (auto simp: identify_pareto_filter)

lemma top_total_not_dominated:
  assumes v: "valid_input scores M" and k: "k < length scores"
    and top: "\<forall>j<length scores. dominates (scores ! j) (scores ! k) \<longrightarrow>
                row_total (scores ! j) \<le> row_total (scores ! k)"
  shows "\<not> is_dominated scores k"
proof
  assume "is_dominated scores k"
  then obtain j where j: "j < length scores" "dominates (scores ! j) (scores ! k)"
    using v k by (auto simp: is_dominated_valid)
  have "length (scores ! j) = length (scores ! k)"
    using valid_row(1) [OF v] j(1) k by simp
  then have "row_total (scores ! k) < row_total (scores ! j)"
    using j(2) by (rule dominates_total)
  with top j show False by fastforce
qed

lemma gt_score_irrefl: "\<not> gt_score x x"
  by (cases x) simp_all

lemma any_py_row_gt_same: "\<not> any_py (row_gt v v)"
  by (simp add: any_py_row_gt gt_score_irrefl)

lemma dominated_test_same_row:
  "scores ! j = scores ! i \<Longrightarrow> \<not> dominated_test scores j i"
  by (simp add: dominated_test_def any_py_row_gt_same)

lemma shape2_row: "shape2 scores M \<Longrightarrow> i < length scores \<Longrightarrow> length (scores ! i) = M"
  by (simp add: shape2_def list_all_length)

lemma dominated_test_NaN:
  assumes sh: "shape2 scores M" and i: "i < length scores" and j: "j < length scores"
    and nan: "NaN \<in> set (scores ! i)"
  shows "\<not> dominated_test scores j i" and "\<not> dominated_test scores i j"
proof -
  have li: "length (scores ! i) = M" and lj: "length (scores ! j) = M"
    using sh i j by (simp_all add: shape2_row)
  from nan obtain k where k: "k < M" "scores ! i ! k = NaN"
    using li by (auto simp: in_set_conv_nth)
  have "\<not> all_py (row_ge (scores ! j) (scores ! i))"
    using k by (auto simp: all_py_row_ge li lj ge_score_NaN)
  then show "\<not> dominated_test scores j i"
    by (simp add: dominated_test_def)
  have "\<not> all_py (row_ge (scores ! i) (scores ! j))"
    using k by (auto simp: all_py_row_ge li lj ge_score_NaN)
  then show "\<not> dominated_test scores i j"
    by (simp add: dominated_test_def)
qed

lemma is_permutation_props:
  assumes "is_permutation p n"
  shows "length p = n" and "set p = {..<n}"
proof -
  have m: "mset p = mset [0..<n]" using assms by (simp add: is_permutation_def)
  from mset_eq_length [OF m] show "length p = n" by simp
  from mset_eq_setD [OF m] show "set p = {..<n}" by (simp add: lessThan_atLeast0)
qed

lemma length_take_rows: "length (take_rows scores idx) = length idx"
  by (simp add: take_rows_def)

lemma nth_take_rows: "i < length idx \<Longrightarrow> take_rows scores idx ! i = scores ! (idx ! i)"
  by (simp add: take_rows_def)

lemma is_dominated_take_rows:
  assumes perm: "is_permutation p (length scores)" and i: "i < length scores"
  shows "is_dominated (take_rows scores p) i = is_dominated scores (p ! i)"
proof -
  let ?N = "length scores"
  have len: "length p = ?N" and sp: "set p = {..<?N}"
    using is_permutation_props [OF perm] by simp_all
  have t: "dominated_test (take_rows scores p) j i = dominated_test scores (p ! j) (p ! i)"
    if "j < ?N" for j
    using that i len by (simp add: dominated_test_def nth_take_rows)
  have "(\<exists>j<?N. dominated_test scores (p ! j) (p ! i)) = (\<exists>j'<?N. dominated_test scores j' (p ! i))"
  proof
    assume "\<exists>j<?N. dominated_test scores (p ! j) (p ! i)"
    then obtain j where j: "j < ?N" "dominated_test scores (p ! j) (p ! i)" by blast
    have "p ! j \<in> set p" using j(1) len by simp
    then have "p ! j < ?N" using sp by simp
    with j(2) show "\<exists>j'<?N. dominated_test scores j' (p ! i)" by blast
  next
    assume "\<exists>j'<?N. dominated_test scores j' (p ! i)"
    then obtain j' where j': "j' < ?N" "dominated_test scores j' (p ! i)" by blast
    then have "j' \<in> set p" using sp by simp
    then obtain j where "j < length p" "p ! j = j'" by (auto simp: in_set_conv_nth)
    with j'(2) len show "\<exists>j<?N. dominated_test scores (p ! j) (p ! i)" by auto
  qed
  moreover have "is_dominated (take_rows scores p) i =
      (\<exists>j<?N. dominated_test scores (p ! j) (p ! i))"
    using t len by (auto simp: is_dominated_iff length_take_rows)
  ultimately show ?thesis
    by (simp add: is_dominated_iff)
qed

lemma identify_pareto_take_rows:
  assumes perm: "is_permutation p (length scores)"
  shows "identify_pareto (take_rows scores p) =
           filter (\<lambda>i. p ! i \<in> set (identify_pareto scores)) [0..<length scores]"
proof -
  let ?N = "length scores"
  have len: "length p = ?N" and sp: "set p = {..<?N}"
    using is_permutation_props [OF perm] by simp_all
  have in_range: "p ! i < ?N" if "i < ?N" for i
  proof -
    have "p ! i \<in> set p" using that len by simp
    then show ?thesis using sp by simp
  qed
  have "filter (\<lambda>i. \<not> is_dominated (take_rows scores p) i) [0..<?N] =
        filter (\<lambda>i. p ! i \<in> set (identify_pareto scores)) [0..<?N]"
    by (rule filter_cong)
      (simp_all add: is_dominated_take_rows [OF perm] in_identify_pareto_iff in_range)
  then show ?thesis
    using len by (simp add: identify_pareto_filter [of "take_rows scores p"] length_take_rows)
qed

lemma filter_mem_identify_pareto:
  "filter (\<lambda>k. k \<in> set (identify_pareto scores)) [0..<length scores] = identify_pareto scores"
proof -
  have "filter (\<lambda>k. k \<in> set (identify_pareto scores)) [0..<length scores] =
        filter (\<lambda>k. \<not> is_dominated scores k) [0..<length scores]"
    by (rule filter_cong) (simp_all add: in_identify_pareto_iff)
  then show ?thesis by (simp add: identify_pareto_filter)
qed

section \<open>Properties of \<open>identify_pareto\<close>\<close>

text \<open>
  Claim C1. For every valid input (a non-ragged \<open>N\<close>-by-\<open>M\<close> array of finite values,
  \<open>M \<ge> 1\<close>), \<open>identify_pareto\<close> returns exactly the indices of the candidates that no
  other candidate of the population dominates, in ascending order: the result is the
  list \<open>0..N-1\<close> filtered by \<open>non_dominated\<close>, a duplicate-free, strictly ascending
  subsequence of \<open>0..N-1\<close>; every returned index is non-dominated, and every index \<open>k\<close>
  that is not returned has some \<open>j\<close> in the population whose score vector dominates the
  score vector of \<open>k\<close>.
\<close>

theorem identify_pareto_correct:
  assumes "valid_input scores M"
  shows "identify_pareto scores = filter (non_dominated scores) [0..<length scores] \<and>
         subseq (identify_pareto scores) [0..<length scores] \<and>
         sorted_wrt (<) (identify_pareto scores) \<and>
         distinct (identify_pareto scores) \<and>
         (\<forall>k\<in>set (identify_pareto scores). non_dominated scores k) \<and>
         (\<forall>k\<in>{0..<length scores}. k \<notin> set (identify_pareto scores) \<longrightarrow>
            (\<exists>j\<in>{0..<length scores}. dominates (scores ! j) (scores ! k)))"
proof -
  have eq: "identify_pareto scores = filter (non_dominated scores) [0..<length scores]"
    unfolding identify_pareto_filter
    by (rule filter_cong) (simp_all add: non_dominated_valid [OF assms])
  have sub: "subseq (identify_pareto scores) [0..<length scores]"
    by (simp add: identify_pareto_filter)
  have srt: "sorted_wrt (<) (identify_pareto scores)"
    by (simp add: identify_pareto_filter sorted_wrt_filter)
  have dis: "distinct (identify_pareto scores)"
    by (simp add: identify_pareto_filter)
  have snd: "\<forall>k\<in>set (identify_pareto scores). non_dominated scores k"
    by (simp add: eq)
  have cmp: "\<forall>k\<in>{0..<length scores}. k \<notin> set (identify_pareto scores) \<longrightarrow>
            (\<exists>j\<in>{0..<length scores}. dominates (scores ! j) (scores ! k))"
    using is_dominated_valid [OF assms] by (auto simp: in_identify_pareto_iff)
  from eq sub srt dis snd cmp show ?thesis by blast
qed

theorem identify_pareto_correct_witness:
  "valid_input [[Fin 1, Fin 2], [Fin 2, Fin 1], [Fin 0, Fin 0]] 2 \<and>
   identify_pareto [[Fin 1, Fin 2], [Fin 2, Fin 1], [Fin 0, Fin 0]] =
     filter (non_dominated [[Fin 1, Fin 2], [Fin 2, Fin 1], [Fin 0, Fin 0]])
       [0..<length [[Fin 1, Fin 2], [Fin 2, Fin 1], [Fin 0, Fin 0]]] \<and>
   identify_pareto [[Fin 1, Fin 2], [Fin 2, Fin 1], [Fin 0, Fin 0]] = [0, 1] \<and>
   dominates [Fin 1, Fin 2] [Fin 0, Fin 0]"
proof -
  have v: "valid_input [[Fin 1, Fin 2], [Fin 2, Fin 1], [Fin 0, Fin 0]] 2"
    by code_simp
  have r: "identify_pareto [[Fin 1, Fin 2], [Fin 2, Fin 1], [Fin 0, Fin 0]] = [0, 1]"
    by code_simp
  have d: "dominates [Fin 1, Fin 2] [Fin 0, Fin 0]"
    by code_simp
  from v r d identify_pareto_correct [OF v] show ?thesis by blast
qed

text \<open>
  Claim C2 says that malformed input fails with \<open>InvalidInput\<close> before any comparison.
  The function has no validation step. The array of shape \<open>(2, 0)\<close> (\<open>M < 1\<close>) is not a
  valid input and yields \<open>[0, 1]\<close>; the one-row array \<open>[[NaN, +inf]]\<close> is not a valid input
  and yields \<open>[0]\<close>.
\<close>

theorem invalid_input_counterexample:
  "shape2 [[], []] 0 \<and> \<not> valid_input [[], []] 0 \<and> identify_pareto [[], []] = [0, 1] \<and>
   shape2 [[NaN, PInf]] 2 \<and> \<not> valid_input [[NaN, PInf]] 2 \<and> identify_pareto [[NaN, PInf]] = [0]"
  by code_simp

text \<open>
  Claim C2, amended. \<open>identify_pareto\<close> validates nothing and has no error result: on
  every \<open>N\<close>-by-\<open>M\<close> array, also with \<open>M = 0\<close> and with NaN or infinite components, it
  returns the indices \<open>i\<close> for which no row \<open>j\<close> passes the test of the inner loop. With
  \<open>M = 0\<close> these are all the indices \<open>0..N-1\<close>, and an array of one row yields \<open>[0]\<close>
  whatever its components are. (A ragged collection of rows is not an \<open>N\<close>-by-\<open>M\<close> array;
  nothing is stated about it.)
\<close>

theorem identify_pareto_no_validation:
  assumes "shape2 scores M"
  shows "identify_pareto scores = filter (\<lambda>i. \<not> is_dominated scores i) [0..<length scores] \<and>
         (M = 0 \<longrightarrow> identify_pareto scores = [0..<length scores]) \<and>
         (length scores = 1 \<longrightarrow> identify_pareto scores = [0])"
proof (intro conjI impI)
  show "identify_pareto scores = filter (\<lambda>i. \<not> is_dominated scores i) [0..<length scores]"
    by (rule identify_pareto_filter)
next
  assume "M = 0"
  then have "scores ! j = scores ! i" if "i < length scores" "j < length scores" for i j
    using that shape2_row [OF assms] by simp
  then have "\<not> is_dominated scores k" if "k < length scores" for k
    using that by (auto simp: is_dominated_iff intro!: dominated_test_same_row)
  then show "identify_pareto scores = [0..<length scores]"
    by (simp add: identify_pareto_filter)
next
  assume one: "length scores = 1"
  then have "\<not> is_dominated scores 0"
    by (auto simp: is_dominated_iff intro!: dominated_test_same_row)
  then show "identify_pareto scores = [0]"
    using one by (simp add: identify_pareto_filter)
qed

theorem identify_pareto_no_validation_witness:
  "shape2 [[], []] 0 \<and> identify_pareto [[], []] = [0, 1] \<and>
   shape2 [[NaN, PInf]] 2 \<and> length [[NaN, PInf]] = 1 \<and> identify_pareto [[NaN, PInf]] = [0]"
proof -
  have a: "shape2 [[], []] 0" by code_simp
  have b: "shape2 [[NaN, PInf]] 2" by code_simp
  have l: "length [[NaN, PInf]] = 1" by simp
  have "identify_pareto [[], []] = [0..<length ([[], []] :: ndarray2)]"
    by (rule identify_pareto_no_validation [OF a, THEN conjunct2, THEN conjunct1, THEN mp, OF refl])
  then have c: "identify_pareto [[], []] = [0, 1]" by simp
  from l identify_pareto_no_validation [OF b]
  have d: "identify_pareto [[NaN, PInf]] = [0]" by blast
  from a b l c d show ?thesis by blast
qed

text \<open>
  Claim C3. For every non-empty valid population (\<open>N \<ge> 1\<close>) the sequence of indices
  that \<open>identify_pareto\<close> returns is non-empty: a candidate whose components have the
  largest sum is never dominated.
\<close>

theorem identify_pareto_nonempty:
  assumes v: "valid_input scores M" and ne: "scores \<noteq> []"
  shows "identify_pareto scores \<noteq> []"
proof -
  have "\<exists>k\<in>{..<length scores}. \<forall>j\<in>{..<length scores}.
          row_total (scores ! j) \<le> row_total (scores ! k)"
    using ne by (intro finite_argmax) auto
  then obtain k where k: "k < length scores"
    and top: "\<forall>j<length scores. row_total (scores ! j) \<le> row_total (scores ! k)"
    by auto
  have "\<not> is_dominated scores k"
    using top by (intro top_total_not_dominated [OF v k]) simp
  with k have "k \<in> set (identify_pareto scores)"
    by (simp add: in_identify_pareto_iff)
  then show ?thesis by auto
qed

theorem identify_pareto_nonempty_witness:
  "valid_input [[Fin 1, Fin 2], [Fin 2, Fin 1], [Fin 0, Fin 0]] 2 \<and>
   [[Fin 1, Fin 2], [Fin 2, Fin 1], [Fin 0, Fin 0]] \<noteq> [] \<and>
   identify_pareto [[Fin 1, Fin 2], [Fin 2, Fin 1], [Fin 0, Fin 0]] \<noteq> []"
proof -
  have v: "valid_input [[Fin 1, Fin 2], [Fin 2, Fin 1], [Fin 0, Fin 0]] 2"
    by code_simp
  have ne: "[[Fin 1, Fin 2], [Fin 2, Fin 1], [Fin 0, Fin 0]] \<noteq> []"
    by simp
  from v ne identify_pareto_nonempty [OF v ne] show ?thesis by blast
qed

text \<open>
  Claim C4 says that every candidate achieving the maximum of some objective is returned.
  In the population \<open>[[1, 0], [1, 1]]\<close> candidate 0 achieves the maximum of objective 0,
  yet candidate 1 dominates it (equal on objective 0, larger on objective 1) and the
  function returns \<open>[1]\<close>.
\<close>

theorem every_maximiser_survives_counterexample:
  "valid_input [[Fin 1, Fin 0], [Fin 1, Fin 1]] 2 \<and>
   attains_max [[Fin 1, Fin 0], [Fin 1, Fin 1]] 0 0 \<and>
   0 \<notin> set (identify_pareto [[Fin 1, Fin 0], [Fin 1, Fin 1]]) \<and>
   identify_pareto [[Fin 1, Fin 0], [Fin 1, Fin 1]] = [1]"
  by code_simp

text \<open>
  Claim C4, amended. For every valid population and every objective index \<open>i\<close>, every
  candidate achieving the maximum value of objective \<open>i\<close> over the population appears in
  the indices returned by \<open>identify_pareto\<close>, except one that is dominated by another
  candidate achieving that maximum: a maximiser of objective \<open>i\<close> is returned exactly
  when no maximiser of objective \<open>i\<close> dominates it. In particular, a non-empty population
  has at least one maximiser of objective \<open>i\<close> among the returned indices, and a candidate
  strictly better on objective \<open>i\<close> than every other candidate is always returned.
\<close>

theorem max_objective_survives:
  assumes v: "valid_input scores M" and i: "i < M"
  shows "(\<forall>k\<in>{0..<length scores}. attains_max scores i k \<longrightarrow>
            (k \<in> set (identify_pareto scores)) = (\<not> dominated_by_maximiser scores i k)) \<and>
         (scores \<noteq> [] \<longrightarrow> (\<exists>k\<in>set (identify_pareto scores). attains_max scores i k)) \<and>
         (\<forall>k\<in>{0..<length scores}. strict_max scores i k \<longrightarrow> k \<in> set (identify_pareto scores))"
proof -
  let ?N = "length scores"
  have dom_max: "attains_max scores i j"
    if k: "k < ?N" and km: "attains_max scores i k"
      and j: "j < ?N" and d: "dominates (scores ! j) (scores ! k)" for j k
  proof -
    have "length (scores ! j) = M" using valid_row(1) [OF v j] .
    then have "value_of (scores ! k ! i) \<le> value_of (scores ! j ! i)"
      using d i by (simp add: dominates_def)
    then show ?thesis
      using km by (fastforce simp: attains_max_def)
  qed
  have ties: "(k \<in> set (identify_pareto scores)) = (\<not> dominated_by_maximiser scores i k)"
    if k: "k < ?N" and km: "attains_max scores i k" for k
  proof
    assume "k \<in> set (identify_pareto scores)"
    then have "\<not> is_dominated scores k" by (simp add: in_identify_pareto_iff)
    then have "\<forall>j<?N. \<not> dominates (scores ! j) (scores ! k)"
      by (simp add: is_dominated_valid [OF v k])
    then show "\<not> dominated_by_maximiser scores i k"
      by (simp add: dominated_by_maximiser_def)
  next
    assume nd: "\<not> dominated_by_maximiser scores i k"
    have "\<not> is_dominated scores k"
    proof
      assume "is_dominated scores k"
      then obtain j where j: "j < ?N" "dominates (scores ! j) (scores ! k)"
        using v k by (auto simp: is_dominated_valid)
      have "attains_max scores i j" using dom_max [OF k km j] .
      with j have "dominated_by_maximiser scores i k"
        by (auto simp: dominated_by_maximiser_def)
      with nd show False by simp
    qed
    with k show "k \<in> set (identify_pareto scores)"
      by (simp add: in_identify_pareto_iff)
  qed
  have some: "\<exists>k\<in>set (identify_pareto scores). attains_max scores i k" if ne: "scores \<noteq> []"
  proof -
    let ?S = "{k. k < ?N \<and> attains_max scores i k}"
    have "\<exists>k\<in>{..<?N}. \<forall>j\<in>{..<?N}. value_of (scores ! j ! i) \<le> value_of (scores ! k ! i)"
      using ne by (intro finite_argmax) auto
    then have S_ne: "?S \<noteq> {}"
      by (auto simp: attains_max_def)
    have "\<exists>k\<in>?S. \<forall>j\<in>?S. row_total (scores ! j) \<le> row_total (scores ! k)"
      using S_ne by (intro finite_argmax) auto
    then obtain k where k: "k < ?N" and km: "attains_max scores i k"
      and top: "\<forall>j\<in>?S. row_total (scores ! j) \<le> row_total (scores ! k)"
      by auto
    have "\<not> is_dominated scores k"
    proof (rule top_total_not_dominated [OF v k], intro allI impI)
      fix j assume j: "j < ?N" and d: "dominates (scores ! j) (scores ! k)"
      have "attains_max scores i j" using dom_max [OF k km j d] .
      with j top show "row_total (scores ! j) \<le> row_total (scores ! k)" by simp
    qed
    with k km show ?thesis
      by (auto simp: in_identify_pareto_iff)
  qed
  have strict: "k \<in> set (identify_pareto scores)"
    if k: "k < ?N" and sm: "strict_max scores i k" for k
  proof -
    have km: "attains_max scores i k"
      unfolding attains_max_def
    proof
      fix j assume "j \<in> {0..<?N}"
      then show "value_of (scores ! j ! i) \<le> value_of (scores ! k ! i)"
        using sm by (cases "j = k") (auto simp: strict_max_def less_imp_le)
    qed
    have "\<not> dominated_by_maximiser scores i k"
    proof
      assume "dominated_by_maximiser scores i k"
      then obtain j where j: "j < ?N" "dominates (scores ! j) (scores ! k)"
        by (auto simp: dominated_by_maximiser_def)
      have "j \<noteq> k" using j(2) dominates_irrefl by auto
      then have lt: "value_of (scores ! j ! i) < value_of (scores ! k ! i)"
        using sm j(1) by (simp add: strict_max_def)
      have "length (scores ! j) = M" using valid_row(1) [OF v j(1)] .
      then have "value_of (scores ! k ! i) \<le> value_of (scores ! j ! i)"
        using j(2) i by (simp add: dominates_def)
      with lt show False by simp
    qed
    then show ?thesis using ties [OF k km] by simp
  qed
  from ties some strict show ?thesis by simp
qed

theorem max_objective_survives_witness:
  "valid_input [[Fin 1, Fin 0, Fin 2], [Fin 1, Fin 2, Fin 0], [Fin 0, Fin 0, Fin 0]] 3 \<and>
   (0::nat) < 3 \<and>
   attains_max [[Fin 1, Fin 0, Fin 2], [Fin 1, Fin 2, Fin 0], [Fin 0, Fin 0, Fin 0]] 0 0 \<and>
   attains_max [[Fin 1, Fin 0, Fin 2], [Fin 1, Fin 2, Fin 0], [Fin 0, Fin 0, Fin 0]] 0 1 \<and>
   \<not> dominated_by_maximiser
       [[Fin 1, Fin 0, Fin 2], [Fin 1, Fin 2, Fin 0], [Fin 0, Fin 0, Fin 0]] 0 0 \<and>
   \<not> dominated_by_maximiser
       [[Fin 1, Fin 0, Fin 2], [Fin 1, Fin 2, Fin 0], [Fin 0, Fin 0, Fin 0]] 0 1 \<and>
   0 \<in> set (identify_pareto
              [[Fin 1, Fin 0, Fin 2], [Fin 1, Fin 2, Fin 0], [Fin 0, Fin 0, Fin 0]]) \<and>
   1 \<in> set (identify_pareto
              [[Fin 1, Fin 0, Fin 2], [Fin 1, Fin 2, Fin 0], [Fin 0, Fin 0, Fin 0]]) \<and>
   strict_max [[Fin 1, Fin 0, Fin 2], [Fin 1, Fin 2, Fin 0], [Fin 0, Fin 0, Fin 0]] 1 1 \<and>
   identify_pareto [[Fin 1, Fin 0, Fin 2], [Fin 1, Fin 2, Fin 0], [Fin 0, Fin 0, Fin 0]] =
     [0, 1]"
proof -
  let ?s = "[[Fin 1, Fin 0, Fin 2], [Fin 1, Fin 2, Fin 0], [Fin 0, Fin 0, Fin 0]]"
  have v: "valid_input ?s 3" by code_simp
  have i: "(0::nat) < 3" by simp
  have m0: "attains_max ?s 0 0" and m1: "attains_max ?s 0 1" by code_simp+
  have n0: "\<not> dominated_by_maximiser ?s 0 0" and n1: "\<not> dominated_by_maximiser ?s 0 1"
    by code_simp+
  have k0: "(0::nat) \<in> {0..<length ?s}" and k1: "(1::nat) \<in> {0..<length ?s}" by simp_all
  have sm: "strict_max ?s 1 1" by code_simp
  have r: "identify_pareto ?s = [0, 1]" by code_simp
  from max_objective_survives [OF v i]
  have ties: "\<forall>k\<in>{0..<length ?s}. attains_max ?s 0 k \<longrightarrow>
                (k \<in> set (identify_pareto ?s)) = (\<not> dominated_by_maximiser ?s 0 k)"
    by (rule conjunct1)
  from ties k0 m0 n0 have a: "0 \<in> set (identify_pareto ?s)" by blast
  from ties k1 m1 n1 have b: "1 \<in> set (identify_pareto ?s)" by blast
  from v i m0 m1 n0 n1 a b sm r show ?thesis by blast
qed

text \<open>
  Claim C5. A score vector never dominates an identical one. So in a valid population,
  two candidates \<open>i\<close> and \<open>j\<close> with identical score vectors are both returned when no
  third candidate dominates them; the input \<open>[[1, 1], [1, 1]]\<close> yields \<open>[0, 1]\<close>; and a
  population whose candidates are all identical returns every index.
\<close>

theorem identical_scores_retained:
  "\<not> dominates v v \<and>
   (valid_input scores M \<and> i < length scores \<and> j < length scores \<and> scores ! i = scores ! j \<and>
    (\<forall>k\<in>{0..<length scores}. k \<noteq> i \<and> k \<noteq> j \<longrightarrow> \<not> dominates (scores ! k) (scores ! i))
    \<longrightarrow> i \<in> set (identify_pareto scores) \<and> j \<in> set (identify_pareto scores)) \<and>
   identify_pareto [[Fin 1, Fin 1], [Fin 1, Fin 1]] = [0, 1] \<and>
   ((\<forall>row\<in>set population. row = v) \<longrightarrow> identify_pareto population = [0..<length population])"
proof (intro conjI impI)
  show "\<not> dominates v v" by (rule dominates_irrefl)
next
  assume a: "valid_input scores M \<and> i < length scores \<and> j < length scores \<and>
    scores ! i = scores ! j \<and>
    (\<forall>k\<in>{0..<length scores}. k \<noteq> i \<and> k \<noteq> j \<longrightarrow> \<not> dominates (scores ! k) (scores ! i))"
  then have v: "valid_input scores M" and i: "i < length scores" and j: "j < length scores"
    and same: "scores ! i = scores ! j"
    and third: "\<And>k. k < length scores \<Longrightarrow> k \<noteq> i \<Longrightarrow> k \<noteq> j \<Longrightarrow>
                  \<not> dominates (scores ! k) (scores ! i)"
    by auto
  have none: "\<not> dominates (scores ! k) (scores ! i)" if "k < length scores" for k
    using third [OF that] same dominates_irrefl by (cases "k = i \<or> k = j") auto
  have "\<not> is_dominated scores i"
    using none by (simp add: is_dominated_valid [OF v i])
  moreover have "\<not> is_dominated scores j"
    using none same by (simp add: is_dominated_valid [OF v j])
  ultimately show "i \<in> set (identify_pareto scores)" and "j \<in> set (identify_pareto scores)"
    using i j by (simp_all add: in_identify_pareto_iff)
next
  show "identify_pareto [[Fin 1, Fin 1], [Fin 1, Fin 1]] = [0, 1]"
    by code_simp
next
  assume all_v: "\<forall>row\<in>set population. row = v"
  have "population ! j = population ! k" if "k < length population" "j < length population" for j k
    using all_v that by (metis nth_mem)
  then have "\<not> is_dominated population k" if "k < length population" for k
    using that by (auto simp: is_dominated_iff intro!: dominated_test_same_row)
  then show "identify_pareto population = [0..<length population]"
    by (simp add: identify_pareto_filter)
qed

theorem identical_scores_retained_witness:
  "valid_input [[Fin 1, Fin 1], [Fin 1, Fin 1], [Fin 0, Fin 0]] 2 \<and>
   [[Fin 1, Fin 1], [Fin 1, Fin 1], [Fin 0, Fin 0]] ! 0 =
     [[Fin 1, Fin 1], [Fin 1, Fin 1], [Fin 0, Fin 0]] ! 1 \<and>
   0 \<in> set (identify_pareto [[Fin 1, Fin 1], [Fin 1, Fin 1], [Fin 0, Fin 0]]) \<and>
   1 \<in> set (identify_pareto [[Fin 1, Fin 1], [Fin 1, Fin 1], [Fin 0, Fin 0]]) \<and>
   identify_pareto [[Fin 2, Fin 3], [Fin 2, Fin 3], [Fin 2, Fin 3]] =
     [0..<length [[Fin 2, Fin 3], [Fin 2, Fin 3], [Fin 2, Fin 3]]]"
proof -
  let ?s = "[[Fin 1, Fin 1], [Fin 1, Fin 1], [Fin 0, Fin 0]]"
  let ?p = "[[Fin 2, Fin 3], [Fin 2, Fin 3], [Fin 2, Fin 3]]"
  have v: "valid_input ?s 2" by code_simp
  have i: "(0::nat) < length ?s" and j: "(1::nat) < length ?s" by simp_all
  have same: "?s ! 0 = ?s ! 1" by simp
  have third: "\<forall>k\<in>{0..<length ?s}. k \<noteq> 0 \<and> k \<noteq> 1 \<longrightarrow> \<not> dominates (?s ! k) (?s ! 0)"
    by code_simp
  have allv: "\<forall>row\<in>set ?p. row = [Fin 2, Fin 3]" by simp
  from v i j same third allv
    identical_scores_retained [of "[Fin 2, Fin 3]" ?s 2 0 1 ?p]
  show ?thesis by blast
qed

text \<open>
  Claim C6. On the 30 candidates with two objectives that the notebook uses as dummy
  data, \<open>identify_pareto\<close> returns exactly the indices 0, 1, 3, 4, 6, 7, 8, 9, 10.
\<close>

theorem identify_pareto_scores_example:
  "identify_pareto scores_example = [0, 1, 3, 4, 6, 7, 8, 9, 10]"
  by code_simp

text \<open>
  Claim C7. Reordering the population reorders the result with it. Let \<open>p\<close> be a
  permutation of \<open>0..N-1\<close> and \<open>scores[p]\<close> the reordered population, whose row \<open>i\<close> is
  row \<open>p[i]\<close> of the original. Then index \<open>i\<close> is returned for \<open>scores[p]\<close> exactly when
  \<open>p[i]\<close> is returned for \<open>scores\<close>; the returned indices of the original are the images
  under \<open>p\<close> of those of the reordered population; and the selected score vectors are the
  same, as a multiset and hence as a set.
\<close>

theorem identify_pareto_permutation:
  assumes perm: "is_permutation p (length scores)"
  shows "identify_pareto (take_rows scores p) =
           filter (\<lambda>i. p ! i \<in> set (identify_pareto scores)) [0..<length scores] \<and>
         (\<lambda>i. p ! i) ` set (identify_pareto (take_rows scores p)) = set (identify_pareto scores) \<and>
         mset (take_rows (take_rows scores p) (identify_pareto (take_rows scores p))) =
           mset (take_rows scores (identify_pareto scores)) \<and>
         set (take_rows (take_rows scores p) (identify_pareto (take_rows scores p))) =
           set (take_rows scores (identify_pareto scores))"
proof -
  let ?N = "length scores"
  let ?R = "identify_pareto scores"
  let ?R' = "identify_pareto (take_rows scores p)"
  have len: "length p = ?N" and sp: "set p = {..<?N}"
    using is_permutation_props [OF perm] by simp_all
  have m: "mset p = mset [0..<?N]" using perm by (simp add: is_permutation_def)
  have R': "?R' = filter (\<lambda>i. p ! i \<in> set ?R) [0..<?N]"
    by (rule identify_pareto_take_rows [OF perm])
  have img: "(\<lambda>i. p ! i) ` set ?R' = set ?R"
  proof
    show "(\<lambda>i. p ! i) ` set ?R' \<subseteq> set ?R" by (auto simp: R')
    show "set ?R \<subseteq> (\<lambda>i. p ! i) ` set ?R'"
    proof
      fix k assume k: "k \<in> set ?R"
      then have "k < ?N" by (simp add: in_identify_pareto_iff)
      then have "k \<in> set p" using sp by simp
      then obtain i where "i < length p" "p ! i = k" by (auto simp: in_set_conv_nth)
      with k len have "i \<in> set ?R'" by (simp add: R')
      with \<open>p ! i = k\<close> show "k \<in> (\<lambda>i. p ! i) ` set ?R'" by blast
    qed
  qed
  have "i < length p" if "i \<in> set ?R'" for i
    using that len by (simp add: R')
  then have "map (\<lambda>i. take_rows scores p ! i) ?R' = map (\<lambda>i. scores ! (p ! i)) ?R'"
    by (intro map_cong refl nth_take_rows)
  then have "take_rows (take_rows scores p) ?R' = map (\<lambda>i. scores ! (p ! i)) ?R'"
    by (simp add: take_rows_def [of "take_rows scores p"])
  also have "\<dots> = map (\<lambda>k. scores ! k) (map (\<lambda>i. p ! i) ?R')"
    by (simp add: comp_def)
  also have "map (\<lambda>i. p ! i) ?R' = filter (\<lambda>k. k \<in> set ?R) (map (\<lambda>i. p ! i) [0..<?N])"
    by (simp add: R' filter_map comp_def)
  also have "map (\<lambda>i. p ! i) [0..<?N] = p"
    using map_nth [of p] len by simp
  finally have rows: "take_rows (take_rows scores p) ?R' =
      take_rows scores (filter (\<lambda>k. k \<in> set ?R) p)"
    by (simp add: take_rows_def)
  have "mset (filter (\<lambda>k. k \<in> set ?R) p) = mset (filter (\<lambda>k. k \<in> set ?R) [0..<?N])"
    using m by (simp only: mset_filter)
  then have sel: "mset (filter (\<lambda>k. k \<in> set ?R) p) = mset ?R"
    by (simp only: filter_mem_identify_pareto)
  have "mset (take_rows scores (filter (\<lambda>k. k \<in> set ?R) p)) =
        image_mset (\<lambda>k. scores ! k) (mset (filter (\<lambda>k. k \<in> set ?R) p))"
    by (simp only: take_rows_def mset_map)
  also have "\<dots> = image_mset (\<lambda>k. scores ! k) (mset ?R)"
    by (simp only: sel)
  also have "\<dots> = mset (take_rows scores ?R)"
    by (simp only: take_rows_def mset_map)
  finally have ms: "mset (take_rows (take_rows scores p) ?R') = mset (take_rows scores ?R)"
    by (simp only: rows)
  from mset_eq_setD [OF ms] R' img ms show ?thesis by simp
qed

theorem identify_pareto_permutation_witness:
  "is_permutation [2, 0, 1] (length [[Fin 1, Fin 2], [Fin 2, Fin 1], [Fin 0, Fin 0]]) \<and>
   identify_pareto [[Fin 1, Fin 2], [Fin 2, Fin 1], [Fin 0, Fin 0]] = [0, 1] \<and>
   take_rows [[Fin 1, Fin 2], [Fin 2, Fin 1], [Fin 0, Fin 0]] [2, 0, 1] =
     [[Fin 0, Fin 0], [Fin 1, Fin 2], [Fin 2, Fin 1]] \<and>
   identify_pareto [[Fin 0, Fin 0], [Fin 1, Fin 2], [Fin 2, Fin 1]] = [1, 2] \<and>
   set (take_rows [[Fin 0, Fin 0], [Fin 1, Fin 2], [Fin 2, Fin 1]] [1, 2]) =
     set (take_rows [[Fin 1, Fin 2], [Fin 2, Fin 1], [Fin 0, Fin 0]] [0, 1])"
proof -
  let ?s = "[[Fin 1, Fin 2], [Fin 2, Fin 1], [Fin 0, Fin 0]]"
  have p: "is_permutation [2, 0, 1] (length ?s)" by code_simp
  have r: "identify_pareto ?s = [0, 1]" by code_simp
  have t: "take_rows ?s [2, 0, 1] = [[Fin 0, Fin 0], [Fin 1, Fin 2], [Fin 2, Fin 1]]"
    by code_simp
  have r': "identify_pareto [[Fin 0, Fin 0], [Fin 1, Fin 2], [Fin 2, Fin 1]] = [1, 2]"
    by code_simp
  from identify_pareto_permutation [OF p]
  have "set (take_rows (take_rows ?s [2, 0, 1]) (identify_pareto (take_rows ?s [2, 0, 1]))) =
        set (take_rows ?s (identify_pareto ?s))"
    by blast
  then have "set (take_rows [[Fin 0, Fin 0], [Fin 1, Fin 2], [Fin 2, Fin 1]] [1, 2]) =
             set (take_rows ?s [0, 1])"
    by (simp only: t r r')
  with p r t r' show ?thesis by blast
qed

text \<open>
  Claim C8. The loop with the early exit (leave the inner loop at the first dominator of
  candidate \<open>i\<close>) and the naive variant (test every \<open>j\<close>, OR-reduce the outcomes) return
  the same indices on every input.
\<close>

theorem identify_pareto_early_exit_refines_naive:
  "identify_pareto scores = identify_pareto_naive scores"
  by (simp only: identify_pareto_filter identify_pareto_naive_filter)

text \<open>
  Claim C9. For the empty population (\<open>N = 0\<close>) \<open>identify_pareto\<close> returns the empty
  sequence of indices; neither loop body is entered and nothing is raised.
\<close>

theorem identify_pareto_empty:
  "identify_pareto [] = []"
  by (simp add: identify_pareto_def mask_select_def)

text \<open>
  Claim C10. The function does no finiteness check. On an \<open>N\<close>-by-\<open>M\<close> array, a candidate
  \<open>i\<close> whose score vector contains a NaN is always returned: no \<open>j\<close> passes
  \<open>all(scores[j] >= scores[i]) and any(scores[j] > scores[i])\<close> against it, since the
  comparison at the NaN component is false; and for the same reason row \<open>i\<close> passes the
  test against no candidate, so it never removes one.
\<close>

theorem nan_rows_retained:
  assumes "shape2 scores M" and "i < length scores" and "NaN \<in> set (scores ! i)"
  shows "i \<in> set (identify_pareto scores) \<and>
         (\<forall>j\<in>{0..<length scores}. \<not> dominated_test scores j i \<and> \<not> dominated_test scores i j)"
proof -
  have no: "\<forall>j\<in>{0..<length scores}. \<not> dominated_test scores j i \<and> \<not> dominated_test scores i j"
    using dominated_test_NaN [OF assms(1,2) _ assms(3)] by simp
  then have "\<not> is_dominated scores i"
    by (simp add: is_dominated_iff)
  with assms(2) no show ?thesis
    by (simp add: in_identify_pareto_iff)
qed

theorem nan_rows_retained_witness:
  "shape2 [[NaN, Fin 1], [Fin 2, Fin 3]] 2 \<and>
   (0::nat) < length [[NaN, Fin 1], [Fin 2, Fin 3]] \<and>
   NaN \<in> set ([[NaN, Fin 1], [Fin 2, Fin 3]] ! 0) \<and>
   0 \<in> set (identify_pareto [[NaN, Fin 1], [Fin 2, Fin 3]])"
proof -
  let ?s = "[[NaN, Fin 1], [Fin 2, Fin 3]]"
  have sh: "shape2 ?s 2" by code_simp
  have i: "(0::nat) < length ?s" by simp
  have n: "NaN \<in> set (?s ! 0)" by simp
  from sh i n nan_rows_retained [OF sh i n] show ?thesis by blast
qed

end
